theory Spec2Isabelle
  imports Main "HOL-Library.Word"
begin

unbundle bit_operations_syntax

section \<open>Values, exceptions and outcomes\<close>

text \<open>
  A C++ \<open>char\<close>, \<open>unsigned char\<close> or \<open>uint8_t\<close> holding binary data is an 8-bit word;
  a \<open>std::string\<close> is a \<open>string\<close>; the \<open>int\<close> of the target dimensions is a 32-bit word
  read as two's complement by \<open>sint\<close>.
\<close>

type_synonym byte = "8 word"
type_synonym c_int = "32 word"

text \<open>
  The exception classes that \<open>main.cpp\<close> tells apart in its handlers:
  \<open>std::invalid_argument\<close>, \<open>std::runtime_error\<close>, and any other class derived from
  \<open>std::exception\<close> (Boost's \<open>dataflow_exception\<close>, OpenCV's \<open>cv::Exception\<close>). Each
  carries the text that \<open>what()\<close> returns.
\<close>

datatype exn =
    invalid_argument string
  | runtime_error string
  | other_exception string

fun what :: "exn \<Rightarrow> string" where
  "what (invalid_argument m) = m"
| "what (runtime_error m) = m"
| "what (other_exception m) = m"

text \<open>
  A call returns a value, leaves by an exception, or has undefined behaviour (an access
  outside an array or a vector). A loop that does not end has no outcome: it is \<open>None\<close>.
\<close>

datatype 'a result = Return 'a | Throw exn | Undefined

text \<open>
  \<open>dataflow_exception(dataflow_exception::invalid_base64_character)\<close> of
  \<open>boost/archive/iterators/dataflow_exception.hpp\<close>, with the text of its \<open>what()\<close>.
\<close>

definition invalid_base64_character :: exn where
  "invalid_base64_character =
     other_exception ''attempt to decode a value not in base64 char set''"

section \<open>The Boost iterators used by the text codec\<close>

text \<open>
  \<open>base64_decode\<close> and \<open>base64_encode\<close> build their results from the iterator adaptors of
  \<open>boost/archive/iterators\<close>: \<open>binary_from_base64\<close>, \<open>base64_from_binary\<close> and
  \<open>transform_width\<close>. These headers are Boost's, not the repository's; what the two
  functions compute is decided there, so their member functions are transcribed here,
  one definition per member, for the two instantiations of \<open>main.cpp\<close>:
  \<open>transform_width<binary_from_base64<std::string::const_iterator>, 8, 6>\<close> and
  \<open>base64_from_binary<transform_width<const unsigned char*, 6, 8>>\<close>.
\<close>

subsection \<open>The two character tables\<close>

text \<open>
  \<open>detail::to_6_bit::operator()\<close> of \<open>binary_from_base64.hpp\<close>: a table of 128 signed
  entries (written here row by row, 16 to a row), \<open>-1\<close> for a character outside the
  alphabet; \<open>=\<close> is rendered as \<open>0\<close>. A character above 127 and a character whose entry
  is \<open>-1\<close> throw.
\<close>

definition lookup_table_to_6_bit :: "int list" where
  "lookup_table_to_6_bit =
     [-1,-1,-1,-1,-1,-1,-1,-1,-1,-1,-1,-1,-1,-1,-1,-1] @
     [-1,-1,-1,-1,-1,-1,-1,-1,-1,-1,-1,-1,-1,-1,-1,-1] @
     [-1,-1,-1,-1,-1,-1,-1,-1,-1,-1,-1,62,-1,-1,-1,63] @
     [52,53,54,55,56,57,58,59,60,61,-1,-1,-1, 0,-1,-1] @
     [-1, 0, 1, 2, 3, 4, 5, 6, 7, 8, 9,10,11,12,13,14] @
     [15,16,17,18,19,20,21,22,23,24,25,-1,-1,-1,-1,-1] @
     [-1,26,27,28,29,30,31,32,33,34,35,36,37,38,39,40] @
     [41,42,43,44,45,46,47,48,49,50,51,-1,-1,-1,-1,-1]"

definition to_6_bit :: "char \<Rightarrow> byte result" where
  "to_6_bit t =
     (let v = (if (of_char t :: nat) \<le> 127 then lookup_table_to_6_bit ! of_char t else -1)
      in if v = -1 then Throw invalid_base64_character else Return (of_int v))"

text \<open>
  \<open>detail::from_6_bit::operator()\<close> of \<open>base64_from_binary.hpp\<close>: the alphabet as a string
  of 64 characters, indexed by the value; \<open>BOOST_ASSERT(t < 64)\<close> guards the index, and an
  index of 64 or more reads outside the table.
\<close>

definition lookup_table_from_6_bit :: string where
  "lookup_table_from_6_bit =
     ''ABCDEFGHIJKLMNOPQRSTUVWXYZ'' @ ''abcdefghijklmnopqrstuvwxyz'' @ ''0123456789'' @ ''+/''"

definition from_6_bit :: "byte \<Rightarrow> char result" where
  "from_6_bit t =
     (if t < 64 then Return (lookup_table_from_6_bit ! unat t) else Undefined)"

subsection \<open>\<open>transform_width\<close>\<close>

text \<open>
  The data members of \<open>transform_width\<close>. The base iterator is the part of the input
  that has not been read yet; the end iterator is the empty rest.
\<close>

record 'a transform_width =
  base_reference :: "'a list"
  m_buffer_out_full :: bool
  m_buffer_out :: byte
  m_buffer_in :: byte
  m_remaining_bits :: nat
  m_end_of_sequence :: bool

text \<open>The constructor \<open>transform_width(T start)\<close>.\<close>

definition transform_width_init :: "'a list \<Rightarrow> 'a transform_width" where
  "transform_width_init start =
     \<lparr> base_reference = start, m_buffer_out_full = False, m_buffer_out = 0,
       m_buffer_in = 0, m_remaining_bits = 0, m_end_of_sequence = False \<rparr>"

text \<open>
  \<open>* this->base_reference()++\<close> for the two base iterators.

  For \<open>binary_from_base64<std::string::const_iterator>\<close> the character read goes through
  \<open>to_6_bit\<close>. \<open>transform_width::fill\<close> does not compare with the end before it reads: at
  the end of the string it reads the terminating \<open>'\0'\<close> that \<open>std::string\<close> keeps at
  \<open>data()[size()]\<close>, which \<open>to_6_bit\<close> rejects.

  For \<open>const unsigned char*\<close> the byte is read as it is; a read at \<open>data + len\<close> is
  outside the buffer.
\<close>

definition next_6_bit :: "string \<Rightarrow> (byte \<times> string) result" where
  "next_6_bit cs =
     (case cs of
        [] \<Rightarrow> (case to_6_bit (CHR 0x00) of
                 Return v \<Rightarrow> Undefined | Throw e \<Rightarrow> Throw e | Undefined \<Rightarrow> Undefined)
      | c # cs' \<Rightarrow> (case to_6_bit c of
                 Return v \<Rightarrow> Return (v, cs') | Throw e \<Rightarrow> Throw e | Undefined \<Rightarrow> Undefined))"

definition next_byte :: "byte list \<Rightarrow> (byte \<times> byte list) result" where
  "next_byte bs = (case bs of [] \<Rightarrow> Undefined | b # bs' \<Rightarrow> Return (b, bs'))"

text \<open>
  One pass through the body of the \<open>do \<dots> while (0 < missing_bits)\<close> loop of
  \<open>transform_width::fill\<close>, for input width \<open>BitsIn\<close> and base read \<open>next\<close>; it returns the
  iterator and the bits still missing.
\<close>

definition fill_body ::
  "nat \<Rightarrow> ('a list \<Rightarrow> (byte \<times> 'a list) result) \<Rightarrow> 'a transform_width \<Rightarrow> nat
     \<Rightarrow> ('a transform_width \<times> nat) result" where
  "fill_body BitsIn next it missing_bits =
     (let r = (if m_remaining_bits it = 0 then
                 (if m_end_of_sequence it then
                    Return (it\<lparr>m_buffer_in := 0, m_remaining_bits := missing_bits\<rparr>)
                  else
                    (case next (base_reference it) of
                       Return (v, rest) \<Rightarrow>
                         Return (it\<lparr>base_reference := rest, m_buffer_in := v,
                                    m_remaining_bits := BitsIn\<rparr>)
                     | Throw e \<Rightarrow> Throw e
                     | Undefined \<Rightarrow> Undefined))
               else Return it)
      in case r of
           Return it1 \<Rightarrow>
             (let i = min missing_bits (m_remaining_bits it1);
                  j = drop_bit (m_remaining_bits it1 - i) (m_buffer_in it1);
                  j = j AND (push_bit i 1 - 1)
              in Return (it1\<lparr>m_buffer_out := push_bit i (m_buffer_out it1) OR j,
                              m_remaining_bits := m_remaining_bits it1 - i\<rparr>,
                         missing_bits - i))
         | Throw e \<Rightarrow> Throw e
         | Undefined \<Rightarrow> Undefined)"

lemma fill_body_less:
  assumes "fill_body BitsIn next it missing_bits = Return (it', m)" and "0 < m" and "0 < BitsIn"
  shows "m < missing_bits"
  using assms
  by (auto simp: fill_body_def Let_def min_def split: if_splits result.splits prod.splits)

text \<open>
  The loop of \<open>fill\<close> in \<open>transform_width<binary_from_base64<\<dots>>, 8, 6>\<close> (decoding)
  and in \<open>transform_width<const unsigned char*, 6, 8>\<close> (encoding).
\<close>

function fill_loop_8_6 :: "char transform_width \<Rightarrow> nat \<Rightarrow> char transform_width result" where
  "fill_loop_8_6 it missing_bits =
     (case fill_body 6 next_6_bit it missing_bits of
        Return (it', m) \<Rightarrow> if 0 < m then fill_loop_8_6 it' m else Return it'
      | Throw e \<Rightarrow> Throw e
      | Undefined \<Rightarrow> Undefined)"
  by pat_completeness auto
termination
  by (relation "measure snd") (auto dest: fill_body_less)

function fill_loop_6_8 :: "byte transform_width \<Rightarrow> nat \<Rightarrow> byte transform_width result" where
  "fill_loop_6_8 it missing_bits =
     (case fill_body 8 next_byte it missing_bits of
        Return (it', m) \<Rightarrow> if 0 < m then fill_loop_6_8 it' m else Return it'
      | Throw e \<Rightarrow> Throw e
      | Undefined \<Rightarrow> Undefined)"
  by pat_completeness auto
termination
  by (relation "measure snd") (auto dest: fill_body_less)

text \<open>\<open>fill()\<close>: clear the output, run the loop for \<open>BitsOut\<close> bits, mark the output full.\<close>

definition fill_8_6 :: "char transform_width \<Rightarrow> char transform_width result" where
  "fill_8_6 it =
     (case fill_loop_8_6 (it\<lparr>m_buffer_out := 0\<rparr>) 8 of
        Return it' \<Rightarrow> Return (it'\<lparr>m_buffer_out_full := True\<rparr>)
      | Throw e \<Rightarrow> Throw e
      | Undefined \<Rightarrow> Undefined)"

definition fill_6_8 :: "byte transform_width \<Rightarrow> byte transform_width result" where
  "fill_6_8 it =
     (case fill_loop_6_8 (it\<lparr>m_buffer_out := 0\<rparr>) 6 of
        Return it' \<Rightarrow> Return (it'\<lparr>m_buffer_out_full := True\<rparr>)
      | Throw e \<Rightarrow> Throw e
      | Undefined \<Rightarrow> Undefined)"

text \<open>
  \<open>dereference()\<close> fills the output buffer unless it is full; the value read is then
  \<open>m_buffer_out\<close> of the iterator returned. \<open>increment()\<close> marks the buffer empty.
\<close>

definition dereference_8_6 :: "char transform_width \<Rightarrow> char transform_width result" where
  "dereference_8_6 it = (if \<not> m_buffer_out_full it then fill_8_6 it else Return it)"

definition dereference_6_8 :: "byte transform_width \<Rightarrow> byte transform_width result" where
  "dereference_6_8 it = (if \<not> m_buffer_out_full it then fill_6_8 it else Return it)"

definition increment :: "'a transform_width \<Rightarrow> 'a transform_width" where
  "increment it = it\<lparr>m_buffer_out_full := False\<rparr>"

text \<open>
  \<open>equal_impl(rhs)\<close> against the end iterator. With \<open>BitsIn < BitsOut\<close> (decoding) the
  base iterators are compared and left-over bits are discarded. With \<open>BitsIn > BitsOut\<close>
  (encoding) reaching the end sets \<open>m_end_of_sequence\<close> in the iterator and the result is
  whether no bits remain.
\<close>

definition equal_impl_8_6 :: "char transform_width \<Rightarrow> bool" where
  "equal_impl_8_6 it = (base_reference it = [])"

definition equal_impl_6_8 :: "byte transform_width \<Rightarrow> bool \<times> byte transform_width" where
  "equal_impl_6_8 it =
     (if base_reference it = [] then
        (m_remaining_bits it = 0, it\<lparr>m_end_of_sequence := True\<rparr>)
      else (False, it))"

section \<open>The text codec of \<open>main.cpp\<close>\<close>

subsection \<open>The containers built from an iterator range\<close>

text \<open>
  Both iterator types are single-pass input iterators, so the range constructors of
  \<open>std::vector\<close> and \<open>std::string\<close> run
  \<open>for (; first != last; ++first) push_back(*first)\<close>. Nothing bounds the number of
  passes from outside, hence the \<open>option\<close>.
\<close>

partial_function (option)
  vector_from_range :: "char transform_width \<Rightarrow> byte list \<Rightarrow> byte list result option" where
  "vector_from_range first acc =
     (if equal_impl_8_6 first then Some (Return acc)
      else (case dereference_8_6 first of
              Return it \<Rightarrow> vector_from_range (increment it) (acc @ [m_buffer_out it])
            | Throw e \<Rightarrow> Some (Throw e)
            | Undefined \<Rightarrow> Some Undefined))"

text \<open>
  For the string the value of the iterator is \<open>from_6_bit\<close> of the value of the
  \<open>transform_width\<close> below it (\<open>base64_from_binary\<close> is a \<open>transform_iterator\<close>).
\<close>

partial_function (option)
  string_from_range :: "byte transform_width \<Rightarrow> string \<Rightarrow> string result option" where
  "string_from_range first acc =
     (case equal_impl_6_8 first of
        (eq, first') \<Rightarrow>
          if eq then Some (Return acc)
          else
            (case dereference_6_8 first' of
               Return it \<Rightarrow>
                 (case from_6_bit (m_buffer_out it) of
                    Return c \<Rightarrow> string_from_range (increment it) (acc @ [c])
                  | Throw e \<Rightarrow> Some (Throw e)
                  | Undefined \<Rightarrow> Some Undefined)
             | Throw e \<Rightarrow> Some (Throw e)
             | Undefined \<Rightarrow> Some Undefined))"

subsection \<open>\<open>boost::trim\<close>\<close>

text \<open>
  \<open>boost::trim(clean)\<close> removes the characters classified as space by the locale, at
  the end and at the start. \<open>main.cpp\<close> never changes the locale, so this is the classic
  one: space, \<open>\t\<close>, \<open>\n\<close>, \<open>\v\<close>, \<open>\f\<close> and \<open>\r\<close>.
\<close>

definition is_space :: "char \<Rightarrow> bool" where
  "is_space c \<longleftrightarrow> c \<in> {CHR 0x20, CHR 0x09, CHR 0x0A, CHR 0x0B, CHR 0x0C, CHR 0x0D}"

definition trim_right :: "string \<Rightarrow> string" where
  "trim_right s = rev (dropWhile is_space (rev s))"

definition trim_left :: "string \<Rightarrow> string" where
  "trim_left s = dropWhile is_space s"

definition trim :: "string \<Rightarrow> string" where
  "trim s = trim_left (trim_right s)"

subsection \<open>\<open>base64_decode\<close> and \<open>base64_encode\<close>\<close>

text \<open>
  The string \<open>clean\<close> of \<open>base64_decode\<close> (lines 28 to 31): trimmed, then every \<open>\n\<close>
  and every \<open>\r\<close> erased.
\<close>

definition clean_of :: "string \<Rightarrow> string" where
  "clean_of encoded =
     (let clean = trim encoded;
          clean = filter (\<lambda>c. c \<noteq> CHR 0x0A) clean;
          clean = filter (\<lambda>c. c \<noteq> CHR 0x0D) clean
      in clean)"

text \<open>The count \<open>padding\<close> (lines 35 to 39), for a \<open>clean\<close> that is not empty.\<close>

definition padding_of :: "string \<Rightarrow> nat" where
  "padding_of clean =
     (let padding = 0;
          padding = (if clean ! (length clean - 1) = CHR ''='' then padding + 1 else padding);
          padding = (if length clean > 1 \<and> clean ! (length clean - 2) = CHR ''=''
                     then padding + 1 else padding)
      in padding)"

text \<open>
  \<open>result.erase(result.end() - padding, result.end())\<close>: inside the vector when
  \<open>padding\<close> is at most its size, outside it otherwise.
\<close>

definition erase_tail :: "byte list \<Rightarrow> nat \<Rightarrow> byte list result" where
  "erase_tail result padding =
     (if padding \<le> length result then Return (take (length result - padding) result)
      else Undefined)"

text \<open>
  \<open>base64_decode\<close>. The handler of its \<open>try\<close> block turns any \<open>std::exception\<close> into a
  \<open>std::runtime_error\<close> with the same text.
\<close>

definition base64_decode :: "string \<Rightarrow> byte list result option" where
  "base64_decode encoded =
     (let clean = clean_of encoded in
      if clean = [] then Some (Return [])
      else
        (let padding = padding_of clean in
         case vector_from_range (transform_width_init clean) [] of
           None \<Rightarrow> None
         | Some (Return result) \<Rightarrow> Some (erase_tail result padding)
         | Some (Throw e) \<Rightarrow> Some (Throw (runtime_error (what e)))
         | Some Undefined \<Rightarrow> Some Undefined))"

text \<open>\<open>base64_encode(data, len)\<close>, the bytes \<open>data[0..len)\<close> given as a list.\<close>

definition base64_encode :: "byte list \<Rightarrow> string result option" where
  "base64_encode data =
     (case string_from_range (transform_width_init data) [] of
        None \<Rightarrow> None
      | Some (Return result) \<Rightarrow>
          (let padding = (3 - length data mod 3) mod 3
           in Some (Return (result @ replicate padding (CHR ''=''))))
      | Some (Throw e) \<Rightarrow> Some (Throw e)
      | Some Undefined \<Rightarrow> Some Undefined)"

section \<open>The pipeline \<open>resize_jpeg\<close> and the request handler\<close>

text \<open>
  The three OpenCV calls are parameters: \<open>cv::imdecode(buf, flags)\<close>, \<open>cv::Mat::empty()\<close>,
  \<open>cv::resize(src, dst, dsize, 0, 0, interpolation)\<close> and
  \<open>cv::imencode(ext, img, buf, params)\<close>, the last returning its flag and the buffer it
  filled. Each may throw.
\<close>

datatype cv_flag = IMREAD_COLOR | INTER_AREA | IMWRITE_JPEG_QUALITY | IMWRITE_JPEG_OPTIMIZE

record 'm opencv =
  imdecode :: "byte list \<Rightarrow> cv_flag \<Rightarrow> 'm result"
  mat_empty :: "'m \<Rightarrow> bool"
  resize :: "'m \<Rightarrow> c_int \<times> c_int \<Rightarrow> cv_flag \<Rightarrow> 'm result"
  imencode :: "string \<Rightarrow> 'm \<Rightarrow> (cv_flag \<times> int) list \<Rightarrow> (bool \<times> byte list) result"

definition resize_jpeg :: "'m opencv \<Rightarrow> string \<Rightarrow> c_int \<Rightarrow> c_int \<Rightarrow> string result option" where
  "resize_jpeg cv input_base64 target_width target_height =
     (if sint target_width \<le> 0 \<or> sint target_height \<le> 0 then
        Some (Throw (invalid_argument ''Target dimensions must be positive integers''))
      else if sint target_width > 65500 \<or> sint target_height > 65500 then
        Some (Throw (invalid_argument ''Target dimensions exceed maximum JPEG size''))
      else
        (case base64_decode input_base64 of
           None \<Rightarrow> None
         | Some (Throw e) \<Rightarrow> Some (Throw e)
         | Some Undefined \<Rightarrow> Some Undefined
         | Some (Return jpeg_data) \<Rightarrow>
             if jpeg_data = [] then
               Some (Throw (invalid_argument ''Invalid or empty base64 input''))
             else
               (case imdecode cv jpeg_data IMREAD_COLOR of
                  Throw e \<Rightarrow> Some (Throw e)
                | Undefined \<Rightarrow> Some Undefined
                | Return input_image \<Rightarrow>
                    if mat_empty cv input_image then
                      Some (Throw (runtime_error
                        ''Failed to decode JPEG image - invalid format or corrupted data''))
                    else
                      (case resize cv input_image (target_width, target_height) INTER_AREA of
                         Throw e \<Rightarrow> Some (Throw e)
                       | Undefined \<Rightarrow> Some Undefined
                       | Return resized_image \<Rightarrow>
                           (case imencode cv ''.jpg'' resized_image
                                   [(IMWRITE_JPEG_QUALITY, 85), (IMWRITE_JPEG_OPTIMIZE, 1)] of
                              Throw e \<Rightarrow> Some (Throw e)
                            | Undefined \<Rightarrow> Some Undefined
                            | Return (encode_success, output_buffer) \<Rightarrow>
                                if \<not> encode_success \<or> output_buffer = [] then
                                  Some (Throw (runtime_error
                                    ''Failed to encode resized image to JPEG''))
                                else base64_encode output_buffer)))))"

text \<open>
  The status that the handler of \<open>/resize_image\<close> in \<open>main\<close> sets for an outcome of
  \<open>resize_jpeg\<close> (lines 129 to 146): 200 after a return, 400 in the handler for
  \<open>std::invalid_argument\<close>, 500 in the handler for any other \<open>std::exception\<close>.
\<close>

fun response_result :: "string result \<Rightarrow> nat result" where
  "response_result (Return output_jpeg) = Return 200"
| "response_result (Throw (invalid_argument m)) = Return 400"
| "response_result (Throw e) = Return 500"
| "response_result Undefined = Undefined"

text \<open>
  The failures of the pipeline as the handlers see them: the two rejections of the
  dimension check, and the rejection of an empty decoded buffer.
\<close>

definition InvalidDimension :: "exn \<Rightarrow> bool" where
  "InvalidDimension e \<longleftrightarrow>
     e = invalid_argument ''Target dimensions must be positive integers'' \<or>
     e = invalid_argument ''Target dimensions exceed maximum JPEG size''"

definition EmptyInput :: exn where
  "EmptyInput = invalid_argument ''Invalid or empty base64 input''"


text \<open>
  An image library for the examples: an image is its own file, resizing leaves it as it
  is, and the empty file is the empty image.
\<close>

definition opencv_echo :: "byte list opencv" where
  "opencv_echo =
     \<lparr> imdecode = (\<lambda>buf flags. Return buf), mat_empty = (\<lambda>m. m = []),
       resize = (\<lambda>m dsize flags. Return m), imencode = (\<lambda>ext m params. Return (True, m)) \<rparr>"

section \<open>Closed forms of the two codec loops\<close>

text \<open>
  The functions below describe what the loops compute; the lemmas of the next sections
  prove that they do.

  An iterator between two passes of a range constructor: \<open>m_buffer_out_full\<close> is false.
\<close>

definition iterator_at ::
  "'a list \<Rightarrow> byte \<Rightarrow> byte \<Rightarrow> nat \<Rightarrow> bool \<Rightarrow> 'a transform_width" where
  "iterator_at rest out v r eos =
     \<lparr> base_reference = rest, m_buffer_out_full = False, m_buffer_out = out,
       m_buffer_in = v, m_remaining_bits = r, m_end_of_sequence = eos \<rparr>"

text \<open>A character that \<open>to_6_bit\<close> accepts, and the value it stands for.\<close>

definition in_table :: "char \<Rightarrow> bool" where
  "in_table c \<longleftrightarrow> to_6_bit c \<noteq> Throw invalid_base64_character"

definition value_of :: "char \<Rightarrow> byte" where
  "value_of c = (case to_6_bit c of Return v \<Rightarrow> v | Throw e \<Rightarrow> 0 | Undefined \<Rightarrow> 0)"

text \<open>The three bytes that decoding assembles from four 6-bit values, pair by pair.\<close>

definition octet0 :: "byte \<Rightarrow> byte \<Rightarrow> byte" where
  "octet0 v0 v1 = push_bit 2 (v0 AND mask 6) OR (drop_bit 4 v1 AND mask 2)"

definition octet1 :: "byte \<Rightarrow> byte \<Rightarrow> byte" where
  "octet1 v1 v2 = push_bit 4 (v1 AND mask 4) OR (drop_bit 2 v2 AND mask 4)"

definition octet2 :: "byte \<Rightarrow> byte \<Rightarrow> byte" where
  "octet2 v2 v3 = push_bit 6 (v2 AND mask 2) OR (v3 AND mask 6)"

fun unpack :: "string \<Rightarrow> byte list" where
  "unpack (c0 # c1 # c2 # c3 # cs) =
     [octet0 (value_of c0) (value_of c1), octet1 (value_of c1) (value_of c2),
      octet2 (value_of c2) (value_of c3)] @ unpack cs"
| "unpack [c0, c1, c2] =
     [octet0 (value_of c0) (value_of c1), octet1 (value_of c1) (value_of c2)]"
| "unpack [c0, c1] = [octet0 (value_of c0) (value_of c1)]"
| "unpack [c0] = []"
| "unpack [] = []"

text \<open>The four 6-bit values that encoding cuts from three bytes.\<close>

definition sextet0 :: "byte \<Rightarrow> byte" where
  "sextet0 b0 = drop_bit 2 b0 AND mask 6"

definition sextet1 :: "byte \<Rightarrow> byte \<Rightarrow> byte" where
  "sextet1 b0 b1 = push_bit 4 (b0 AND mask 2) OR (drop_bit 4 b1 AND mask 4)"

definition sextet2 :: "byte \<Rightarrow> byte \<Rightarrow> byte" where
  "sextet2 b1 b2 = push_bit 2 (b1 AND mask 4) OR (drop_bit 6 b2 AND mask 2)"

definition sextet3 :: "byte \<Rightarrow> byte" where
  "sextet3 b2 = b2 AND mask 6"

fun pack :: "byte list \<Rightarrow> byte list" where
  "pack (b0 # b1 # b2 # bs) =
     [sextet0 b0, sextet1 b0 b1, sextet2 b1 b2, sextet3 b2] @ pack bs"
| "pack [b0, b1] = [sextet0 b0, sextet1 b0 b1, sextet2 b1 0]"
| "pack [b0] = [sextet0 b0, sextet1 b0 0]"
| "pack [] = []"

definition alphabet :: "byte \<Rightarrow> char" where
  "alphabet v = lookup_table_from_6_bit ! unat v"

definition padding_for :: "nat \<Rightarrow> nat" where
  "padding_for len = (3 - len mod 3) mod 3"

definition encoded :: "byte list \<Rightarrow> string" where
  "encoded bs = map alphabet (pack bs) @ replicate (padding_for (length bs)) (CHR ''='')"

section \<open>Whitespace and the empty input\<close>

lemma trim_all_space:
  assumes "\<forall>c\<in>set s. is_space c"
  shows "trim s = []"
proof -
  from assms have none_left: "dropWhile is_space (rev s) = []"
    by simp
  show ?thesis
    unfolding trim_def trim_left_def trim_right_def none_left by simp
qed

lemma clean_of_all_space: "\<forall>c\<in>set s. is_space c \<Longrightarrow> clean_of s = []"
  by (simp add: clean_of_def trim_all_space)

lemma dropWhile_all_iff: "(\<forall>c\<in>set (dropWhile P xs). P c) \<longleftrightarrow> dropWhile P xs = []"
proof
  assume all: "\<forall>c\<in>set (dropWhile P xs). P c"
  show "dropWhile P xs = []"
  proof (rule ccontr)
    assume ne: "dropWhile P xs \<noteq> []"
    then have "\<not> P (hd (dropWhile P xs))"
      by (rule hd_dropWhile)
    moreover from ne have "hd (dropWhile P xs) \<in> set (dropWhile P xs)"
      by (rule hd_in_set)
    ultimately show False
      using all by blast
  qed
next
  assume none: "dropWhile P xs = []"
  show "\<forall>c\<in>set (dropWhile P xs). P c"
    unfolding none by simp
qed

lemma trim_empty_iff: "trim s = [] \<longleftrightarrow> (\<forall>c\<in>set s. is_space c)"
proof
  assume "trim s = []"
  then have "\<forall>c\<in>set (dropWhile is_space (rev s)). is_space c"
    by (simp add: trim_def trim_left_def trim_right_def dropWhile_eq_Nil_conv)
  then have "dropWhile is_space (rev s) = []"
    by (simp only: dropWhile_all_iff)
  then show "\<forall>c\<in>set s. is_space c"
    by (simp add: dropWhile_eq_Nil_conv)
qed (rule trim_all_space)

lemma clean_of_empty_iff: "clean_of s = [] \<longleftrightarrow> (\<forall>c\<in>set s. is_space c)"
proof
  assume "clean_of s = []"
  then have "\<forall>c\<in>set (trim s). c = CHR 0x0A \<or> c = CHR 0x0D"
    by (auto simp: clean_of_def Let_def filter_empty_conv)
  then have "\<forall>c\<in>set (dropWhile is_space (trim_right s)). is_space c"
    unfolding trim_def trim_left_def by (auto simp: is_space_def)
  then have "trim s = []"
    unfolding trim_def trim_left_def by (simp only: dropWhile_all_iff)
  then show "\<forall>c\<in>set s. is_space c"
    by (simp only: trim_empty_iff)
qed (rule clean_of_all_space)

lemma base64_decode_clean_empty: "clean_of s = [] \<Longrightarrow> base64_decode s = Some (Return [])"
  by (simp add: base64_decode_def)

section \<open>The dimension check\<close>

lemma resize_jpeg_invalid:
  assumes "sint w \<le> 0 \<or> sint h \<le> 0 \<or> 65500 < sint w \<or> 65500 < sint h"
  shows "\<exists>e. InvalidDimension e \<and> (\<forall>cv input. resize_jpeg cv input w h = Some (Throw e))"
proof (cases "sint w \<le> 0 \<or> sint h \<le> 0")
  case True
  then have "\<forall>cv input. resize_jpeg cv input w h =
      Some (Throw (invalid_argument ''Target dimensions must be positive integers''))"
    by (simp add: resize_jpeg_def)
  then show ?thesis
    unfolding InvalidDimension_def by blast
next
  case False
  with assms have "\<forall>cv input. resize_jpeg cv input w h =
      Some (Throw (invalid_argument ''Target dimensions exceed maximum JPEG size''))"
    by (auto simp: resize_jpeg_def)
  then show ?thesis
    unfolding InvalidDimension_def by blast
qed

lemma resize_jpeg_valid_empty:
  assumes "0 < sint w" "0 < sint h" "sint w \<le> 65500" "sint h \<le> 65500"
    and "base64_decode input = Some (Return [])"
  shows "resize_jpeg cv input w h = Some (Throw EmptyInput)"
  using assms by (simp add: resize_jpeg_def EmptyInput_def)




text \<open>
  C4. When every character of the input is whitespace (the empty string included; by
  \<open>clean_of_empty_iff\<close> these are the inputs that \<open>base64_decode\<close> cleans to the empty
  string), \<open>base64_decode\<close> returns the empty byte sequence without an error, and
  \<open>resize_jpeg\<close>, once the dimensions have passed the check, fails with \<open>EmptyInput\<close>,
  which the handler answers with status 400.
\<close>

theorem whitespace_only_input:
  assumes "\<forall>c\<in>set input. is_space c"
    and "0 < sint w" "0 < sint h" "sint w \<le> 65500" "sint h \<le> 65500"
  shows "base64_decode input = Some (Return []) \<and>
         resize_jpeg cv input w h = Some (Throw EmptyInput) \<and>
         response_result (Throw EmptyInput) = Return 400"
proof -
  from assms(1) have d: "base64_decode input = Some (Return [])"
    by (intro base64_decode_clean_empty clean_of_all_space)
  from assms(2-5) d have "resize_jpeg cv input w h = Some (Throw EmptyInput)"
    by (rule resize_jpeg_valid_empty)
  with d show ?thesis
    by (simp add: EmptyInput_def)
qed

theorem whitespace_only_input_witness:
  "base64_decode [CHR 0x20, CHR 0x0A, CHR 0x09] = Some (Return []) \<and>
   resize_jpeg opencv_echo [CHR 0x20, CHR 0x0A, CHR 0x09] 100 100 = Some (Throw EmptyInput) \<and>
   response_result (Throw EmptyInput) = Return 400"
  using whitespace_only_input [of "[CHR 0x20, CHR 0x0A, CHR 0x09]" 100 100 opencv_echo]
  by (simp add: is_space_def)

section \<open>The decoding loop\<close>

lemma transform_width_init_at: "transform_width_init start = iterator_at start 0 0 0 False"
  by (simp add: transform_width_init_def iterator_at_def)

lemma to_6_bit_alt:
  "to_6_bit c = (if in_table c then Return (value_of c) else Throw invalid_base64_character)"
  by (auto simp: in_table_def value_of_def to_6_bit_def Let_def)

lemma not_in_table_NUL: "\<not> in_table (CHR 0x00)"
  by (simp add: in_table_def to_6_bit_def lookup_table_to_6_bit_def)

lemma next_6_bit_alt:
  "next_6_bit cs =
     (case cs of
        [] \<Rightarrow> Throw invalid_base64_character
      | c # cs' \<Rightarrow> if in_table c then Return (value_of c, cs')
                   else Throw invalid_base64_character)"
  using not_in_table_NUL by (simp add: next_6_bit_def to_6_bit_alt split: list.splits)

lemmas decode_pass =
  iterator_at_def equal_impl_8_6_def dereference_8_6_def fill_8_6_def fill_body_def
  next_6_bit_alt increment_def mask_eq_exp_minus_1

text \<open>One pass of the loop in each of the three phases of a group of four characters.\<close>

lemma vector_from_range_end:
  "vector_from_range (iterator_at [] out v r eos) acc = Some (Return acc)"
  by (subst vector_from_range.simps) (simp add: iterator_at_def equal_impl_8_6_def)

lemma vector_from_range_short:
  "vector_from_range (iterator_at [c] out v 0 False) acc =
     Some (Throw invalid_base64_character)"
  by (subst vector_from_range.simps) (simp add: decode_pass)

lemma vector_from_range_0:
  "vector_from_range (iterator_at (c0 # c1 # rest) out v 0 False) acc =
     (if in_table c0 \<and> in_table c1 then
        vector_from_range
          (iterator_at rest (octet0 (value_of c0) (value_of c1)) (value_of c1) 4 False)
          (acc @ [octet0 (value_of c0) (value_of c1)])
      else Some (Throw invalid_base64_character))"
  by (subst vector_from_range.simps) (simp add: decode_pass octet0_def)

lemma vector_from_range_4:
  "vector_from_range (iterator_at (c # rest) out v 4 False) acc =
     (if in_table c then
        vector_from_range (iterator_at rest (octet1 v (value_of c)) (value_of c) 2 False)
          (acc @ [octet1 v (value_of c)])
      else Some (Throw invalid_base64_character))"
  by (subst vector_from_range.simps) (simp add: decode_pass octet1_def)

lemma vector_from_range_2:
  "vector_from_range (iterator_at (c # rest) out v 2 False) acc =
     (if in_table c then
        vector_from_range (iterator_at rest (octet2 v (value_of c)) (value_of c) 0 False)
          (acc @ [octet2 v (value_of c)])
      else Some (Throw invalid_base64_character))"
  by (subst vector_from_range.simps) (simp add: decode_pass octet2_def)

text \<open>
  The whole loop: it ends for every string; it throws when a character is outside the
  table or when the length leaves one character over after the groups of four; otherwise
  it returns the bytes of \<open>unpack\<close>.
\<close>

lemma vector_from_range_eq:
  "vector_from_range (iterator_at cs out v 0 False) acc =
     Some (if (\<forall>c\<in>set cs. in_table c) \<and> length cs mod 4 \<noteq> 1
           then Return (acc @ unpack cs) else Throw invalid_base64_character)"
proof (induction cs arbitrary: out v acc rule: unpack.induct)
  case (1 c0 c1 c2 c3 cs)
  then show ?case
    by (simp add: vector_from_range_0 vector_from_range_4 vector_from_range_2)
next
  case (2 c0 c1 c2)
  show ?case
    by (simp add: vector_from_range_0 vector_from_range_4 vector_from_range_end)
next
  case (3 c0 c1)
  show ?case
    by (simp add: vector_from_range_0 vector_from_range_end)
next
  case (4 c0)
  show ?case
    by (simp add: vector_from_range_short)
next
  case 5
  show ?case
    by (simp add: vector_from_range_end)
qed

lemma length_unpack: "length (unpack cs) = length cs * 3 div 4"
  by (induction cs rule: unpack.induct) simp_all

text \<open>\<open>base64_decode\<close> in closed form.\<close>

lemma base64_decode_eq:
  "base64_decode encoded_text =
     (let clean = clean_of encoded_text in
      if clean = [] then Some (Return [])
      else if (\<forall>c\<in>set clean. in_table c) \<and> length clean mod 4 \<noteq> 1
      then Some (erase_tail (unpack clean) (padding_of clean))
      else Some (Throw (runtime_error ''attempt to decode a value not in base64 char set'')))"
  by (simp add: base64_decode_def Let_def transform_width_init_at vector_from_range_eq
      invalid_base64_character_def)

section \<open>The encoding loop\<close>

text \<open>
  Comparing with the end a second time before the next read changes nothing, so it does
  not matter how often a range constructor evaluates \<open>first != last\<close> in one pass.
\<close>

lemma equal_impl_6_8_twice:
  "equal_impl_6_8 (snd (equal_impl_6_8 it)) = equal_impl_6_8 it"
  by (simp add: equal_impl_6_8_def)

lemma bit_index_simps:
  "Suc (Suc (n - 2)) = (if 2 \<le> n then n else 2)"
  "4 + (n - 4) = (if 4 \<le> n then n else 4)"
  "6 + (n - 6) = (if 6 \<le> n then n else 6)"
  by auto

lemma below_64: "x AND mask 6 = x \<Longrightarrow> x < 64" for x :: byte
  using and_mask_less_size [of 6 x] by (simp add: word_size)

lemma sextet0_less: "sextet0 b < 64"
  by (rule below_64, rule bit_word_eqI) (auto simp: sextet0_def bit_simps bit_index_simps)

lemma sextet1_less: "sextet1 a b < 64"
  by (rule below_64, rule bit_word_eqI) (auto simp: sextet1_def bit_simps bit_index_simps)

lemma sextet2_less: "sextet2 a b < 64"
  by (rule below_64, rule bit_word_eqI) (auto simp: sextet2_def bit_simps bit_index_simps)

lemma sextet3_less: "sextet3 b < 64"
  by (rule below_64, rule bit_word_eqI) (auto simp: sextet3_def bit_simps bit_index_simps)

lemmas sextet_less = sextet0_less sextet1_less sextet2_less sextet3_less

lemma from_6_bit_alphabet: "v < 64 \<Longrightarrow> from_6_bit v = Return (alphabet v)"
  by (simp add: from_6_bit_def alphabet_def)

lemmas encode_pass =
  iterator_at_def equal_impl_6_8_def dereference_6_8_def fill_6_8_def fill_body_def
  next_byte_def increment_def from_6_bit_alphabet

lemmas sextet0_num = sextet0_def [unfolded mask_eq_exp_minus_1, simplified]
lemmas sextet1_num = sextet1_def [unfolded mask_eq_exp_minus_1, simplified]
lemmas sextet2_num = sextet2_def [unfolded mask_eq_exp_minus_1, simplified]
lemmas sextet3_num = sextet3_def [unfolded mask_eq_exp_minus_1, simplified]
lemmas sextet1_end = sextet1_def [of _ 0, unfolded mask_eq_exp_minus_1, simplified]
lemmas sextet2_end = sextet2_def [of _ 0, unfolded mask_eq_exp_minus_1, simplified]

text \<open>
  One pass of the loop in each of its four phases, and the two passes that fill the last
  character with zero bits once the end of the bytes has been seen.
\<close>

lemma string_from_range_0:
  "string_from_range (iterator_at (b # rest) out v 0 False) acc =
     string_from_range (iterator_at rest (sextet0 b) b 2 False) (acc @ [alphabet (sextet0 b)])"
  using sextet0_less [of b]
  by (subst string_from_range.simps) (simp add: encode_pass flip: sextet0_num)

lemma string_from_range_2:
  "string_from_range (iterator_at (b # rest) out v 2 False) acc =
     string_from_range (iterator_at rest (sextet1 v b) b 4 False)
       (acc @ [alphabet (sextet1 v b)])"
  using sextet1_less [of v b]
  by (subst string_from_range.simps) (simp add: encode_pass flip: sextet1_num)

lemma string_from_range_4:
  "string_from_range (iterator_at (b # rest) out v 4 False) acc =
     string_from_range (iterator_at rest (sextet2 v b) b 6 False)
       (acc @ [alphabet (sextet2 v b)])"
  using sextet2_less [of v b]
  by (subst string_from_range.simps) (simp add: encode_pass flip: sextet2_num)

lemma string_from_range_6:
  "string_from_range (iterator_at rest out v 6 False) acc =
     string_from_range (iterator_at rest (sextet3 v) v 0 (rest = []))
       (acc @ [alphabet (sextet3 v)])"
  using sextet3_less [of v]
  by (subst string_from_range.simps) (simp add: encode_pass flip: sextet3_num)

lemma string_from_range_2_end:
  "string_from_range (iterator_at [] out v 2 eos) acc =
     string_from_range (iterator_at [] (sextet1 v 0) 0 0 True) (acc @ [alphabet (sextet1 v 0)])"
  using sextet1_less [of v 0]
  by (subst string_from_range.simps) (simp add: encode_pass flip: sextet1_end)

lemma string_from_range_4_end:
  "string_from_range (iterator_at [] out v 4 eos) acc =
     string_from_range (iterator_at [] (sextet2 v 0) 0 0 True) (acc @ [alphabet (sextet2 v 0)])"
  using sextet2_less [of v 0]
  by (subst string_from_range.simps) (simp add: encode_pass flip: sextet2_end)

lemma string_from_range_end:
  "string_from_range (iterator_at [] out v 0 eos) acc = Some (Return acc)"
  by (subst string_from_range.simps) (simp add: iterator_at_def equal_impl_6_8_def)

lemma string_from_range_group:
  "string_from_range (iterator_at (b0 # b1 # b2 # bs) out v 0 False) acc =
     string_from_range (iterator_at bs (sextet3 b2) b2 0 (bs = []))
       (acc @ [alphabet (sextet0 b0), alphabet (sextet1 b0 b1), alphabet (sextet2 b1 b2),
               alphabet (sextet3 b2)])"
  by (simp add: string_from_range_0 string_from_range_2 string_from_range_4
      string_from_range_6)

text \<open>The whole loop: it ends for every byte sequence and nothing in it fails.\<close>

lemma string_from_range_eq:
  "(eos \<longrightarrow> bs = []) \<Longrightarrow>
   string_from_range (iterator_at bs out v 0 eos) acc =
     Some (Return (acc @ map alphabet (pack bs)))"
proof (induction bs arbitrary: out v acc eos rule: pack.induct)
  case (1 b0 b1 b2 bs)
  let ?acc = "acc @ [alphabet (sextet0 b0), alphabet (sextet1 b0 b1),
    alphabet (sextet2 b1 b2), alphabet (sextet3 b2)]"
  have "string_from_range (iterator_at bs (sextet3 b2) b2 0 (bs = [])) ?acc =
      Some (Return (?acc @ map alphabet (pack bs)))"
    by (rule "1.IH") simp
  with "1.prems" show ?case
    by (simp add: string_from_range_group)
next
  case (2 b0 b1)
  then show ?case
    by (simp add: string_from_range_0 string_from_range_2 string_from_range_4_end
        string_from_range_end)
next
  case (3 b0)
  then show ?case
    by (simp add: string_from_range_0 string_from_range_2_end string_from_range_end)
next
  case 4
  show ?case
    by (simp add: string_from_range_end)
qed

text \<open>\<open>base64_encode\<close> in closed form.\<close>

lemma base64_encode_eq: "base64_encode bs = Some (Return (encoded bs))"
  by (simp add: base64_encode_def transform_width_init_at string_from_range_eq encoded_def
      padding_for_def)

lemma padding_for_simps:
  "padding_for (Suc (Suc (Suc n))) = padding_for n"
  "padding_for 0 = 0"
  "padding_for (Suc 0) = 2"
  "padding_for (Suc (Suc 0)) = 1"
  by (simp_all add: padding_for_def mod_Suc)

lemma length_encoded: "length (encoded bs) = 4 * ((length bs + 2) div 3)"
proof (induction bs rule: pack.induct)
  case (1 b0 b1 b2 bs)
  have "length (b0 # b1 # b2 # bs) + 2 = (length bs + 2) + 3"
    by simp
  then have "(length (b0 # b1 # b2 # bs) + 2) div 3 = (length bs + 2) div 3 + 1"
    by (simp only: div_add_self2)
  moreover have "length (encoded (b0 # b1 # b2 # bs)) = length (encoded bs) + 4"
    by (simp add: encoded_def padding_for_simps)
  ultimately show ?case
    using "1.IH" by simp
qed (simp_all add: encoded_def padding_for_simps numeral_2_eq_2)

lemma pack_less: "\<forall>v\<in>set (pack bs). v < 64"
  by (induction bs rule: pack.induct) (simp_all add: sextet_less)

lemma length_pack_ge: "bs \<noteq> [] \<Longrightarrow> 2 \<le> length (pack bs)"
  by (induction bs rule: pack.induct) simp_all

section \<open>Decoding what was encoded\<close>

text \<open>
  Each of the 64 characters of the alphabet is mapped back to its index by \<open>to_6_bit\<close>,
  and none of them is \<open>=\<close> or whitespace.
\<close>

lemma alphabet_table:
  "list_all (\<lambda>n. to_6_bit (lookup_table_from_6_bit ! n) = Return (of_nat n) \<and>
                 lookup_table_from_6_bit ! n \<noteq> CHR ''='' \<and>
                 \<not> is_space (lookup_table_from_6_bit ! n)) [0..<64]"
  by (simp add: to_6_bit_def lookup_table_from_6_bit_def lookup_table_to_6_bit_def upt_rec
      is_space_def)

lemma alphabet_props:
  assumes "v < 64"
  shows "to_6_bit (alphabet v) = Return v"
    and "alphabet v \<noteq> CHR ''=''"
    and "\<not> is_space (alphabet v)"
    and "alphabet v \<in> set lookup_table_from_6_bit"
proof -
  from assms have "unat v < 64"
    by (simp add: word_less_nat_alt)
  then have "unat v \<in> set [0..<64]"
    by simp
  with alphabet_table have "to_6_bit (alphabet v) = Return (of_nat (unat v)) \<and>
      alphabet v \<noteq> CHR ''='' \<and> \<not> is_space (alphabet v)"
    unfolding list_all_iff alphabet_def by blast
  then show "to_6_bit (alphabet v) = Return v" "alphabet v \<noteq> CHR ''=''"
    "\<not> is_space (alphabet v)"
    by simp_all
  from \<open>unat v < 64\<close> show "alphabet v \<in> set lookup_table_from_6_bit"
    unfolding alphabet_def by (intro nth_mem) (simp add: lookup_table_from_6_bit_def)
qed

lemma value_of_alphabet: "v < 64 \<Longrightarrow> value_of (alphabet v) = v"
  by (simp add: value_of_def alphabet_props)

lemma in_table_alphabet: "v < 64 \<Longrightarrow> in_table (alphabet v)"
  by (simp add: in_table_def alphabet_props)

lemma equals_sign:
  "in_table (CHR ''='')" "value_of (CHR ''='') = 0" "\<not> is_space (CHR ''='')"
  by (simp_all add: in_table_def value_of_def to_6_bit_def lookup_table_to_6_bit_def
      is_space_def)

text \<open>The bytes assembled from the 6-bit values of a group are the bytes of the group.\<close>

lemma octet0_sextets: "octet0 (sextet0 b0) (sextet1 b0 b1) = b0"
  by (rule bit_word_eqI) (auto simp: octet0_def sextet0_def sextet1_def bit_simps bit_index_simps)

lemma octet1_sextets: "octet1 (sextet1 b0 b1) (sextet2 b1 b2) = b1"
  by (rule bit_word_eqI) (auto simp: octet1_def sextet1_def sextet2_def bit_simps bit_index_simps)

lemma octet2_sextets: "octet2 (sextet2 b1 b2) (sextet3 b2) = b2"
  by (rule bit_word_eqI) (auto simp: octet2_def sextet2_def sextet3_def bit_simps bit_index_simps)

lemma octet1_padding: "octet1 (sextet1 b0 0) 0 = 0"
  by (rule bit_word_eqI) (auto simp: octet1_def sextet1_def bit_simps bit_index_simps)

lemma octet2_padding: "octet2 (sextet2 b1 0) 0 = 0" "octet2 0 0 = 0"
  by (rule bit_word_eqI; auto simp: octet2_def sextet2_def bit_simps bit_index_simps)+

lemmas octet_sextets =
  octet0_sextets octet1_sextets octet2_sextets octet1_padding octet2_padding

lemma unpack_encoded: "unpack (encoded bs) = bs @ replicate (padding_for (length bs)) 0"
  unfolding encoded_def
proof (induction bs rule: pack.induct)
  case (1 b0 b1 b2 bs)
  then show ?case
    by (simp add: padding_for_simps value_of_alphabet sextet_less octet_sextets)
next
  case (2 b0 b1)
  show ?case
    by (simp add: padding_for_simps value_of_alphabet sextet_less octet_sextets equals_sign)
next
  case (3 b0)
  show ?case
    by (simp add: padding_for_simps value_of_alphabet sextet_less octet_sextets equals_sign
        numeral_2_eq_2)
next
  case 4
  show ?case
    by (simp add: padding_for_simps)
qed

lemma encoded_chars: "\<forall>c\<in>set (encoded bs). in_table c \<and> \<not> is_space c"
  using pack_less [of bs]
  by (auto simp: encoded_def in_table_alphabet alphabet_props(3) equals_sign)

lemma dropWhile_none: "\<forall>c\<in>set xs. \<not> P c \<Longrightarrow> dropWhile P xs = xs"
  by (cases xs) simp_all

lemma trim_no_space:
  assumes "\<forall>c\<in>set s. \<not> is_space c"
  shows "trim s = s"
proof -
  from assms have "\<forall>c\<in>set (rev s). \<not> is_space c"
    by simp
  then have "dropWhile is_space (rev s) = rev s"
    by (rule dropWhile_none)
  then have "trim_right s = s"
    unfolding trim_right_def by simp
  moreover from assms have "dropWhile is_space s = s"
    by (rule dropWhile_none)
  ultimately show ?thesis
    unfolding trim_def trim_left_def by simp
qed

lemma clean_of_no_space:
  assumes "\<forall>c\<in>set s. \<not> is_space c"
  shows "clean_of s = s"
proof -
  have "is_space (CHR 0x0A)" "is_space (CHR 0x0D)"
    by (simp_all add: is_space_def)
  with assms have "\<forall>c\<in>set s. c \<noteq> CHR 0x0A" "\<forall>c\<in>set s. c \<noteq> CHR 0x0D"
    by blast+
  then have "filter (\<lambda>c. c \<noteq> CHR 0x0A) s = s" "filter (\<lambda>c. c \<noteq> CHR 0x0D) s = s"
    by (simp_all add: filter_id_conv)
  with trim_no_space [OF assms] show ?thesis
    unfolding clean_of_def Let_def by simp
qed

lemma nth_last: "xs \<noteq> [] \<Longrightarrow> xs ! (length xs - 1) = last xs"
  by (simp add: last_conv_nth)

lemma nth_last_but_one: "1 < length xs \<Longrightarrow> xs ! (length xs - 2) = last (butlast xs)"
proof -
  assume len: "1 < length xs"
  then have "butlast xs \<noteq> []"
    by (cases xs rule: rev_cases) auto
  then have "last (butlast xs) = butlast xs ! (length (butlast xs) - 1)"
    by (rule last_conv_nth)
  also have "\<dots> = xs ! (length (butlast xs) - 1)"
    using len by (intro nth_butlast) simp
  also have "length (butlast xs) - 1 = length xs - 2"
    by simp
  finally show ?thesis by simp
qed

lemma padding_of_alt:
  assumes "clean \<noteq> []"
  shows "padding_of clean =
     (if last clean = CHR ''='' then 1 else 0) +
     (if 1 < length clean \<and> last (butlast clean) = CHR ''='' then 1 else 0)"
proof -
  from assms have l1: "clean ! (length clean - 1) = last clean"
    by (rule nth_last)
  show ?thesis
  proof (cases "1 < length clean")
    case True
    then have l2: "clean ! (length clean - 2) = last (butlast clean)"
      by (rule nth_last_but_one)
    show ?thesis
      unfolding padding_of_def Let_def l1 l2 using True by simp
  next
    case False
    then show ?thesis
      unfolding padding_of_def Let_def l1 by simp
  qed
qed

lemma padding_of_append:
  assumes "\<forall>c\<in>set A. c \<noteq> CHR ''=''" and "2 \<le> length A" and "p \<le> 2"
  shows "padding_of (A @ replicate p (CHR ''='')) = p"
proof -
  from assms(2) have A: "A \<noteq> []" "butlast A \<noteq> []"
    by (cases A rule: rev_cases; auto)+
  then have "last A \<in> set A" "last (butlast A) \<in> set A"
    by (auto dest: in_set_butlastD last_in_set)
  with assms(1) have ne: "last A \<noteq> CHR ''=''" "last (butlast A) \<noteq> CHR ''=''"
    by blast+
  from assms(3) consider "p = 0" | "p = 1" | "p = 2"
    by linarith
  then show ?thesis
  proof cases
    case 1
    with A ne assms(2) show ?thesis by (simp add: padding_of_alt)
  next
    case 2
    with A ne assms(2) show ?thesis by (simp add: padding_of_alt)
  next
    case 3
    then have "A @ replicate p (CHR ''='') = (A @ [CHR ''='']) @ [CHR ''='']"
      by (simp add: numeral_2_eq_2)
    with 3 show ?thesis by (simp add: padding_of_alt del: append_assoc)
  qed
qed

lemma padding_of_encoded: "bs \<noteq> [] \<Longrightarrow> padding_of (encoded bs) = padding_for (length bs)"
  unfolding encoded_def using pack_less [of bs]
  by (intro padding_of_append) (auto simp: alphabet_props(2) length_pack_ge padding_for_def)

lemma base64_decode_encoded: "base64_decode (encoded bs) = Some (Return bs)"
proof (cases "bs = []")
  case True
  then have "encoded bs = []"
    by (simp add: encoded_def padding_for_simps)
  then have "clean_of (encoded bs) = []"
    by (simp add: clean_of_all_space)
  then have "base64_decode (encoded bs) = Some (Return [])"
    by (rule base64_decode_clean_empty)
  with True show ?thesis
    by simp
next
  case False
  then have ne: "encoded bs \<noteq> []"
    using length_pack_ge [of bs] by (auto simp: encoded_def)
  have cl: "clean_of (encoded bs) = encoded bs"
    using encoded_chars by (intro clean_of_no_space) blast
  have "length (encoded bs) mod 4 = 0"
    unfolding length_encoded by (rule mod_mult_self1_is_0)
  then have len: "length (encoded bs) mod 4 \<noteq> 1"
    by simp
  have tab: "\<forall>c\<in>set (encoded bs). in_table c"
    using encoded_chars by blast
  have "base64_decode (encoded bs) =
      Some (erase_tail (unpack (encoded bs)) (padding_of (encoded bs)))"
    unfolding base64_decode_eq Let_def cl using ne len tab by simp
  also have "\<dots> = Some (Return bs)"
    using False by (simp add: padding_of_encoded unpack_encoded erase_tail_def)
  finally show ?thesis .
qed

text \<open>
  C1. Encoding any byte sequence returns a text, and decoding that text returns the same
  byte sequence, whatever its length (with two, one or no padding characters).
\<close>

theorem codec_round_trip:
  "\<exists>t. base64_encode b = Some (Return t) \<and> base64_decode t = Some (Return b)"
  using base64_decode_encoded [of b] by (simp add: base64_encode_eq)

theorem codec_round_trip_witness:
  "\<exists>t. base64_encode [72, 105, 33, 0] = Some (Return t) \<and>
       base64_decode t = Some (Return [72, 105, 33, 0])"
  using codec_round_trip [of "[72, 105, 33, 0]"] .

text \<open>
  C7. \<open>base64_encode\<close> returns a text for every byte sequence: the loop ends, no
  exception is thrown and no table is read outside its bounds. The text is the padded
  representation of the bytes: the characters that the alphabet gives for the 6-bit values
  cut from the bytes (\<open>pack\<close>), none of them \<open>=\<close>, followed by \<open>(3 - len mod 3) mod 3\<close>
  characters \<open>=\<close> (none, one or two), four characters for every three bytes begun; and
  \<open>base64_decode\<close> turns it back into the bytes. The empty byte sequence gives the empty
  string.
\<close>

theorem base64_encode_total:
  "(\<exists>body p. base64_encode bs = Some (Return (body @ replicate p (CHR ''=''))) \<and>
        body = map alphabet (pack bs) \<and>
        p = (3 - length bs mod 3) mod 3 \<and> p \<le> 2 \<and>
        (\<forall>c\<in>set body. c \<in> set lookup_table_from_6_bit \<and> c \<noteq> CHR ''='') \<and>
        length (body @ replicate p (CHR ''='')) = 4 * ((length bs + 2) div 3) \<and>
        base64_decode (body @ replicate p (CHR ''='')) = Some (Return bs))
   \<and> base64_encode [] = Some (Return [])"
proof -
  let ?body = "map alphabet (pack bs)"
  let ?p = "(3 - length bs mod 3) mod 3"
  have shape: "encoded bs = ?body @ replicate ?p (CHR ''='')"
    by (simp add: encoded_def padding_for_def)
  have enc: "base64_encode bs = Some (Return (?body @ replicate ?p (CHR ''='')))"
    unfolding shape [symmetric] by (rule base64_encode_eq)
  have p: "?p \<le> 2"
    by simp
  have chars: "\<forall>c\<in>set ?body. c \<in> set lookup_table_from_6_bit \<and> c \<noteq> CHR ''=''"
    using pack_less [of bs] by (auto simp: alphabet_props(2,4))
  have len: "length (?body @ replicate ?p (CHR ''='')) = 4 * ((length bs + 2) div 3)"
    unfolding shape [symmetric] by (rule length_encoded)
  have dec: "base64_decode (?body @ replicate ?p (CHR ''='')) = Some (Return bs)"
    unfolding shape [symmetric] by (rule base64_decode_encoded)
  have "encoded [] = []"
    by (simp add: encoded_def padding_for_simps)
  then have empty: "base64_encode [] = Some (Return [])"
    by (simp add: base64_encode_eq)
  from enc p chars len dec empty show ?thesis
    by blast
qed

theorem base64_encode_total_witness:
  "base64_encode [72, 105] = Some (Return ''SGk='') \<and>
   base64_decode ''SGk='' = Some (Return [72, 105])"
  using base64_encode_total [of "[72, 105]"]
  by (simp add: sextet0_def sextet1_def sextet2_def mask_eq_exp_minus_1 alphabet_def
      lookup_table_from_6_bit_def)

section \<open>The erase of the padding bytes\<close>

lemma padding_of_le: "padding_of clean \<le> 2"
  by (simp add: padding_of_def Let_def)

lemma padding_of_two:
  assumes "padding_of [c0, c1] = 2"
  shows "c0 = CHR ''=''" and "c1 = CHR ''=''"
  using assms by (simp_all add: padding_of_def Let_def split: if_splits)

lemma base64_decode_undefined_iff:
  "base64_decode encoded_text = Some Undefined \<longleftrightarrow> clean_of encoded_text = ''==''"
proof
  assume "clean_of encoded_text = ''==''"
  then show "base64_decode encoded_text = Some Undefined"
    by (simp add: base64_decode_eq equals_sign padding_of_def erase_tail_def)
next
  let ?clean = "clean_of encoded_text"
  assume "base64_decode encoded_text = Some Undefined"
  then have ne: "?clean \<noteq> []" and len: "length ?clean mod 4 \<noteq> 1"
    and out: "length (unpack ?clean) < padding_of ?clean"
    by (auto simp: base64_decode_eq Let_def erase_tail_def split: if_splits)
  from out padding_of_le [of ?clean] have "length ?clean * 3 div 4 < 2"
    by (simp add: length_unpack)
  then have "length ?clean < 3"
    by simp
  moreover from ne have "length ?clean \<noteq> 0"
    by simp
  moreover from len have "length ?clean \<noteq> 1"
    by auto
  ultimately have "length ?clean = 2"
    by linarith
  then obtain c0 c1 where clean: "?clean = [c0, c1]"
    by (auto simp: length_Suc_conv numeral_2_eq_2)
  with out padding_of_le [of ?clean] have "padding_of [c0, c1] = 2"
    by simp
  with clean show "?clean = ''==''"
    by (simp add: padding_of_two)
qed

text \<open>
  C10. The erase at the end of \<open>base64_decode\<close> leaves the vector exactly when the cleaned
  input is \<open>==\<close>: the two characters decode to one byte and \<open>padding\<close> is 2. The claim holds
  for every other input.
\<close>

theorem erase_outside_vector:
  "base64_decode encoded_text = Some Undefined \<longleftrightarrow> clean_of encoded_text = ''==''"
  by (rule base64_decode_undefined_iff)

theorem erase_outside_vector_witness:
  "vector_from_range (transform_width_init ''=='') [] = Some (Return [0]) \<and>
   padding_of ''=='' = 2 \<and>
   base64_decode ''=='' = Some Undefined"
proof -
  have "clean_of ''=='' = ''==''"
    by (simp add: clean_of_no_space is_space_def)
  with erase_outside_vector [of "''==''"] have "base64_decode ''=='' = Some Undefined"
    by simp
  moreover have "vector_from_range (transform_width_init ''=='') [] = Some (Return [0])"
    by (simp add: transform_width_init_at vector_from_range_eq equals_sign octet0_def)
  moreover have "padding_of ''=='' = 2"
    by (simp add: padding_of_def)
  ultimately show ?thesis
    by simp
qed

section \<open>Which texts the decoder rejects\<close>

text \<open>
  The characters that \<open>to_6_bit\<close> accepts are the 64 of the alphabet and \<open>=\<close>.
\<close>

lemma alphabet_codes:
  "map of_char (lookup_table_from_6_bit @ ''='') =
     [65..<91] @ [97..<123] @ [48..<58] @ [43, 47, 61 :: nat]"
  by (simp add: lookup_table_from_6_bit_def upt_rec)

lemma table_codes:
  "list_all (\<lambda>n. lookup_table_to_6_bit ! n \<noteq> - 1 \<longrightarrow>
       65 \<le> n \<and> n < 91 \<or> 97 \<le> n \<and> n < 123 \<or> 48 \<le> n \<and> n < 58 \<or> n = 43 \<or> n = 47 \<or> n = 61)
     [0..<128]"
  by (simp add: lookup_table_to_6_bit_def upt_rec)

lemma in_table_iff: "in_table c \<longleftrightarrow> c \<in> set lookup_table_from_6_bit \<or> c = CHR ''=''"
proof
  assume "in_table c"
  then have le: "(of_char c :: nat) \<le> 127" and entry: "lookup_table_to_6_bit ! of_char c \<noteq> - 1"
    by (auto simp: in_table_def to_6_bit_def Let_def split: if_splits)
  from le have "(of_char c :: nat) \<in> set [0..<128]"
    by simp
  with table_codes entry
  have "65 \<le> (of_char c :: nat) \<and> (of_char c :: nat) < 91 \<or>
        97 \<le> (of_char c :: nat) \<and> (of_char c :: nat) < 123 \<or>
        48 \<le> (of_char c :: nat) \<and> (of_char c :: nat) < 58 \<or>
        (of_char c :: nat) = 43 \<or> (of_char c :: nat) = 47 \<or> (of_char c :: nat) = 61"
    unfolding list_all_iff by blast
  then have "(of_char c :: nat) \<in> set ([65..<91] @ [97..<123] @ [48..<58] @ [43, 47, 61])"
    unfolding set_append set_upt by auto
  then have "(of_char c :: nat) \<in> set (map of_char (lookup_table_from_6_bit @ ''=''))"
    unfolding alphabet_codes .
  then obtain d where d: "d \<in> set (lookup_table_from_6_bit @ ''='')"
    and "(of_char c :: nat) = of_char d"
    unfolding set_map by blast
  then have "c = d"
    by simp
  with d have "c \<in> set (lookup_table_from_6_bit @ ''='')"
    by simp
  then show "c \<in> set lookup_table_from_6_bit \<or> c = CHR ''=''"
    by auto
next
  assume "c \<in> set lookup_table_from_6_bit \<or> c = CHR ''=''"
  then show "in_table c"
  proof
    assume "c \<in> set lookup_table_from_6_bit"
    moreover have "length lookup_table_from_6_bit = 64"
      by (simp add: lookup_table_from_6_bit_def)
    ultimately obtain n where "n < 64" and "c = lookup_table_from_6_bit ! n"
      unfolding in_set_conv_nth by auto
    with alphabet_table show ?thesis
      unfolding list_all_iff in_table_def by simp
  next
    assume "c = CHR ''=''"
    then show ?thesis by (simp add: equals_sign)
  qed
qed

lemma base64_decode_throws_iff:
  "base64_decode encoded_text =
     Some (Throw (runtime_error ''attempt to decode a value not in base64 char set''))
   \<longleftrightarrow> (\<exists>c\<in>set (clean_of encoded_text). \<not> in_table c) \<or>
       length (clean_of encoded_text) mod 4 = 1"
proof (cases "clean_of encoded_text = []")
  case True
  then show ?thesis
    by (simp add: base64_decode_eq)
next
  case False
  then show ?thesis
    by (auto simp: base64_decode_eq Let_def erase_tail_def)
qed

text \<open>
  \<open>base64_decode\<close> has an outcome for every string; apart from \<open>==\<close>, a cleaned text that
  is not rejected is decoded, three bytes for every four characters, less the padding.
\<close>

lemma base64_decode_never_diverges: "base64_decode encoded_text \<noteq> None"
  by (simp add: base64_decode_eq Let_def)

lemma base64_decode_returns:
  assumes "\<forall>c\<in>set (clean_of encoded_text). in_table c"
    and "length (clean_of encoded_text) mod 4 \<noteq> 1"
    and "clean_of encoded_text \<noteq> ''==''"
  shows "\<exists>bs. base64_decode encoded_text = Some (Return bs) \<and>
           length bs = length (clean_of encoded_text) * 3 div 4 - padding_of (clean_of encoded_text)"
proof (cases "clean_of encoded_text = []")
  case True
  then show ?thesis
    by (simp add: base64_decode_eq)
next
  case False
  let ?clean = "clean_of encoded_text"
  from assms(3) have "base64_decode encoded_text \<noteq> Some Undefined"
    by (simp add: base64_decode_undefined_iff)
  with False assms(1,2) have "padding_of ?clean \<le> length (unpack ?clean)"
    by (auto simp: base64_decode_eq Let_def erase_tail_def split: if_splits)
  with False assms(1,2) show ?thesis
    by (simp add: base64_decode_eq Let_def erase_tail_def length_unpack)
qed

lemma base64_decode_two_equals: "base64_decode ''=='' = Some Undefined"
proof -
  have "clean_of ''=='' = ''==''"
    by (simp add: clean_of_no_space is_space_def)
  then show ?thesis
    by (simp only: base64_decode_undefined_iff)
qed

section \<open>Whitespace around and line breaks inside the text\<close>

lemma dropWhile_filter:
  assumes "\<And>c. \<not> Q c \<Longrightarrow> P c"
  shows "dropWhile P (filter Q xs) = filter Q (dropWhile P xs)"
  using assms by (induction xs) auto

lemma trim_filter:
  assumes "\<And>c. \<not> Q c \<Longrightarrow> is_space c"
  shows "trim (filter Q xs) = filter Q (trim xs)"
  unfolding trim_def trim_left_def trim_right_def
  by (simp add: dropWhile_filter [OF assms] rev_filter)

lemma clean_of_trim_filter:
  "clean_of s = trim (filter (\<lambda>c. c \<noteq> CHR 0x0A \<and> c \<noteq> CHR 0x0D) s)"
proof -
  have "trim (filter (\<lambda>c. c \<noteq> CHR 0x0A \<and> c \<noteq> CHR 0x0D) s) =
      filter (\<lambda>c. c \<noteq> CHR 0x0A \<and> c \<noteq> CHR 0x0D) (trim s)"
    by (rule trim_filter) (auto simp: is_space_def)
  then show ?thesis
    by (simp add: clean_of_def Let_def conj_commute)
qed

lemma trim_right_append_space:
  assumes "\<forall>c\<in>set r. is_space c"
  shows "trim_right (y @ r) = trim_right y"
  using assms by (simp add: trim_right_def dropWhile_append)

lemma trim_left_append_space:
  assumes "\<forall>c\<in>set l. is_space c"
  shows "trim_left (l @ y) = trim_left y"
  using assms by (simp add: trim_left_def dropWhile_append)

lemma trim_left_space_append:
  assumes "\<forall>c\<in>set l. is_space c"
  shows "trim_left (trim_right (l @ y)) = trim_left (trim_right y)"
proof (cases "\<forall>c\<in>set y. is_space c")
  case True
  with assms have "\<forall>c\<in>set (l @ y). is_space c"
    by auto
  then have "trim (l @ y) = []"
    by (rule trim_all_space)
  moreover from True have "trim y = []"
    by (rule trim_all_space)
  ultimately show ?thesis
    by (simp add: trim_def)
next
  case False
  then obtain x where "x \<in> set (rev y)" and "\<not> is_space x"
    by auto
  then have "dropWhile is_space (rev y @ rev l) = dropWhile is_space (rev y) @ rev l"
    by (rule dropWhile_append1)
  then have "trim_right (l @ y) = l @ trim_right y"
    by (simp add: trim_right_def)
  with assms show ?thesis
    by (simp add: trim_left_append_space)
qed

lemma trim_outer_space:
  assumes "\<forall>c\<in>set l. is_space c" and "\<forall>c\<in>set r. is_space c"
  shows "trim (l @ y @ r) = trim y"
proof -
  have "trim_right (l @ y @ r) = trim_right (l @ y)"
    using trim_right_append_space [OF assms(2), of "l @ y"] by simp
  with trim_left_space_append [OF assms(1), of y] show ?thesis
    by (simp add: trim_def)
qed

lemma clean_of_insensitive:
  assumes "filter (\<lambda>c. c \<noteq> CHR 0x0A \<and> c \<noteq> CHR 0x0D) s' =
           filter (\<lambda>c. c \<noteq> CHR 0x0A \<and> c \<noteq> CHR 0x0D) s"
    and "\<forall>c\<in>set l. is_space c" and "\<forall>c\<in>set r. is_space c"
  shows "clean_of (l @ s' @ r) = clean_of s"
proof -
  let ?f = "filter (\<lambda>c. c \<noteq> CHR 0x0A \<and> c \<noteq> CHR 0x0D)"
  from assms(2,3) have "\<forall>c\<in>set (?f l). is_space c" "\<forall>c\<in>set (?f r). is_space c"
    by simp_all
  then have "trim (?f l @ ?f s' @ ?f r) = trim (?f s')"
    by (rule trim_outer_space)
  with assms(1) show ?thesis
    by (simp add: clean_of_trim_filter)
qed

lemma base64_decode_clean: "clean_of a = clean_of b \<Longrightarrow> base64_decode a = base64_decode b"
  by (simp add: base64_decode_def)

text \<open>
  A whitespace character other than \<open>\n\<close> and \<open>\r\<close> that stands between two characters
  that are not whitespace survives the cleaning, and \<open>to_6_bit\<close> rejects it.
\<close>

lemma is_space_not_in_table: "is_space c \<Longrightarrow> \<not> in_table c"
  by (auto simp: is_space_def in_table_iff lookup_table_from_6_bit_def)

lemma embedded_space_kept:
  assumes "is_space c" and "c \<noteq> CHR 0x0A" and "c \<noteq> CHR 0x0D"
    and "\<exists>x\<in>set a. \<not> is_space x" and "\<exists>y\<in>set b. \<not> is_space y"
  shows "c \<in> set (clean_of (a @ [c] @ b))"
proof -
  from assms(5) obtain y where "y \<in> set (rev b)" and "\<not> is_space y"
    by auto
  then have "dropWhile is_space (rev b @ rev (a @ [c])) = dropWhile is_space (rev b) @ rev (a @ [c])"
    by (rule dropWhile_append1)
  then have right: "trim_right (a @ [c] @ b) = a @ [c] @ trim_right b"
    by (simp add: trim_right_def)
  from assms(4) obtain x where "x \<in> set a" and "\<not> is_space x"
    by auto
  then have "dropWhile is_space (a @ ([c] @ trim_right b)) = dropWhile is_space a @ ([c] @ trim_right b)"
    by (rule dropWhile_append1)
  with right have "trim (a @ [c] @ b) = dropWhile is_space a @ [c] @ trim_right b"
    by (simp add: trim_def trim_left_def)
  then have "c \<in> set (trim (a @ [c] @ b))"
    by simp
  with assms(2,3) show ?thesis
    by (simp add: clean_of_def Let_def)
qed

lemma embedded_space_throws:
  assumes "is_space c" and "c \<noteq> CHR 0x0A" and "c \<noteq> CHR 0x0D"
    and "\<exists>x\<in>set a. \<not> is_space x" and "\<exists>y\<in>set b. \<not> is_space y"
  shows "base64_decode (a @ [c] @ b) =
     Some (Throw (runtime_error ''attempt to decode a value not in base64 char set''))"
proof -
  from assms have "c \<in> set (clean_of (a @ [c] @ b))"
    by (rule embedded_space_kept)
  moreover from assms(1) have "\<not> in_table c"
    by (rule is_space_not_in_table)
  ultimately have "\<exists>c\<in>set (clean_of (a @ [c] @ b)). \<not> in_table c"
    by blast
  then show ?thesis
    by (simp only: base64_decode_throws_iff simp_thms)
qed

section \<open>Examples of decoding\<close>

lemma clean_of_examples:
  "clean_of ''QUJD'' = ''QUJD''"
  "clean_of ''QQ'' = ''QQ''"
  "clean_of ''QU JD'' = ''QU JD''"
  "clean_of ''not-valid-base64!@#$'' = ''not-valid-base64!@#$''"
  by (simp_all add: clean_of_def trim_def trim_left_def trim_right_def is_space_def)

lemma in_table_examples:
  "in_table (CHR ''Q'')" "in_table (CHR ''U'')" "in_table (CHR ''J'')" "in_table (CHR ''D'')"
  "\<not> in_table (CHR '' '')" "\<not> in_table (CHR ''-'')"
  by (simp_all add: in_table_iff lookup_table_from_6_bit_def)

lemma value_of_examples:
  "value_of (CHR ''Q'') = 16" "value_of (CHR ''U'') = 20" "value_of (CHR ''J'') = 9"
  "value_of (CHR ''D'') = 3"
  by (simp_all add: value_of_def to_6_bit_def lookup_table_to_6_bit_def)

lemma octet_examples:
  "octet0 16 20 = 65" "octet1 20 9 = 66" "octet2 9 3 = 67" "octet0 16 16 = 65"
  by (simp_all add: octet0_def octet1_def octet2_def mask_eq_exp_minus_1)

lemma base64_decode_QUJD: "base64_decode ''QUJD'' = Some (Return [65, 66, 67])"
  by (simp add: base64_decode_eq clean_of_examples in_table_examples value_of_examples
      octet_examples padding_of_def erase_tail_def)

lemma base64_decode_QQ: "base64_decode ''QQ'' = Some (Return [65])"
  by (simp add: base64_decode_eq clean_of_examples in_table_examples value_of_examples
      octet_examples padding_of_def erase_tail_def)

lemma base64_decode_space_inside:
  "base64_decode ''QU JD'' =
     Some (Throw (runtime_error ''attempt to decode a value not in base64 char set''))"
  by (simp add: base64_decode_throws_iff clean_of_examples in_table_examples)

lemma base64_decode_not_valid:
  "base64_decode ''not-valid-base64!@#$'' =
     Some (Throw (runtime_error ''attempt to decode a value not in base64 char set''))"
  by (simp add: base64_decode_throws_iff clean_of_examples in_table_examples)

lemma sextet_examples:
  "sextet0 65 = 16" "sextet1 65 66 = 20" "sextet2 66 67 = 9" "sextet3 67 = 3"
  by (simp_all add: sextet0_def sextet1_def sextet2_def sextet3_def mask_eq_exp_minus_1)

lemma base64_encode_ABC: "base64_encode [65, 66, 67] = Some (Return ''QUJD'')"
  by (simp add: base64_encode_eq encoded_def padding_for_def sextet_examples alphabet_def
      lookup_table_from_6_bit_def)

section \<open>Malformed text, whitespace, and the order of the stages\<close>

text \<open>
  C3, as stated, fails: the text \<open>not-valid-base64!@#$\<close> makes \<open>resize_jpeg\<close> throw a
  \<open>std::runtime_error\<close>, which the handler answers with status 500, not 400; and \<open>QQ\<close>,
  whose length is not a multiple of four, is decoded without an error.
\<close>

theorem malformed_text_counterexample:
  "resize_jpeg opencv_echo ''not-valid-base64!@#$'' 100 100 =
     Some (Throw (runtime_error ''attempt to decode a value not in base64 char set'')) \<and>
   response_result (Throw (runtime_error ''attempt to decode a value not in base64 char set'')) =
     Return 500 \<and>
   base64_decode ''QQ'' = Some (Return [65])"
  by (simp add: resize_jpeg_def base64_decode_not_valid base64_decode_QQ)

text \<open>
  C3, amended. \<open>base64_decode\<close> throws exactly when the cleaned text holds a character
  that is neither in the alphabet nor \<open>=\<close>, or when its length leaves a remainder of 1
  modulo 4. What it throws is a \<open>std::runtime_error\<close>; with dimensions that passed the
  check \<open>resize_jpeg\<close> fails with that error, and the handler answers it with status 500.
  A cleaned text of any other kind, the text \<open>==\<close> apart, is decoded without an error into
  three bytes for every four characters (rounded down) less the padding count, so a
  length with remainder 2 or 3 is not rejected. Nothing is said here about \<open>==\<close>.
\<close>

theorem malformed_text_is_runtime_error:
  assumes "0 < sint w" "0 < sint h" "sint w \<le> 65500" "sint h \<le> 65500"
  shows
    "((\<exists>e. base64_decode input = Some (Throw e)) \<longleftrightarrow>
        (\<exists>c\<in>set (clean_of input). c \<notin> set lookup_table_from_6_bit \<and> c \<noteq> CHR ''='') \<or>
        length (clean_of input) mod 4 = 1) \<and>
     ((\<exists>e. base64_decode input = Some (Throw e)) \<longrightarrow>
        resize_jpeg cv input w h =
          Some (Throw (runtime_error ''attempt to decode a value not in base64 char set'')) \<and>
        response_result
          (Throw (runtime_error ''attempt to decode a value not in base64 char set'')) =
          Return 500) \<and>
     (\<not> ((\<exists>c\<in>set (clean_of input). c \<notin> set lookup_table_from_6_bit \<and> c \<noteq> CHR ''='') \<or>
          length (clean_of input) mod 4 = 1) \<and>
      clean_of input \<noteq> ''=='' \<longrightarrow>
        (\<exists>bs. base64_decode input = Some (Return bs) \<and>
           length bs = length (clean_of input) * 3 div 4 - padding_of (clean_of input)))"
proof -
  let ?e = "runtime_error ''attempt to decode a value not in base64 char set''"
  let ?malformed =
    "(\<exists>c\<in>set (clean_of input). c \<notin> set lookup_table_from_6_bit \<and> c \<noteq> CHR ''='') \<or>
     length (clean_of input) mod 4 = 1"
  have only: "base64_decode input = Some (Throw ?e)" if "base64_decode input = Some (Throw e)" for e
    using that by (auto simp: base64_decode_eq Let_def erase_tail_def split: if_splits)
  then have "(\<exists>e. base64_decode input = Some (Throw e)) \<longleftrightarrow>
      base64_decode input = Some (Throw ?e)"
    by blast
  then have first: "(\<exists>e. base64_decode input = Some (Throw e)) \<longleftrightarrow> ?malformed"
    by (simp add: base64_decode_throws_iff in_table_iff)
  have second: "resize_jpeg cv input w h = Some (Throw ?e)"
    if "base64_decode input = Some (Throw e)" for e
    using only [OF that] assms by (simp add: resize_jpeg_def)
  have third: "\<exists>bs. base64_decode input = Some (Return bs) \<and>
      length bs = length (clean_of input) * 3 div 4 - padding_of (clean_of input)"
    if "\<not> ?malformed" and "clean_of input \<noteq> ''==''"
  proof (rule base64_decode_returns)
    from that(1) show "\<forall>c\<in>set (clean_of input). in_table c"
      by (auto simp: in_table_iff)
    from that(1) show "length (clean_of input) mod 4 \<noteq> 1"
      by simp
    from that(2) show "clean_of input \<noteq> ''==''" .
  qed
  from first second third show ?thesis
    by auto
qed

theorem malformed_text_is_runtime_error_witness:
  "resize_jpeg opencv_echo ''QU JD'' 1 65500 =
     Some (Throw (runtime_error ''attempt to decode a value not in base64 char set'')) \<and>
   response_result (Throw (runtime_error ''attempt to decode a value not in base64 char set'')) =
     Return 500 \<and>
   (\<exists>bs. base64_decode ''QQ'' = Some (Return bs) \<and> length bs = 1)"
  using malformed_text_is_runtime_error [of 1 65500 "''QU JD''" opencv_echo]
    malformed_text_is_runtime_error [of 1 65500 "''QQ''" opencv_echo]
  by (simp add: base64_decode_space_inside base64_decode_QQ)

text \<open>
  C8, as stated, fails: a space put inside \<open>QUJD\<close> makes decoding throw.
\<close>

theorem embedded_space_counterexample:
  "base64_decode ''QUJD'' = Some (Return [65, 66, 67]) \<and>
   base64_decode ''QU JD'' =
     Some (Throw (runtime_error ''attempt to decode a value not in base64 char set''))"
  by (simp add: base64_decode_QUJD base64_decode_space_inside)

text \<open>
  C8, amended. Whitespace before and after the text, and \<open>\n\<close> and \<open>\r\<close> anywhere in
  it, are insignificant: when \<open>s'\<close> and \<open>s\<close> are the same once every \<open>\n\<close> and \<open>\r\<close> is
  removed (so in particular when \<open>s'\<close> is \<open>s\<close> with such characters inserted), and \<open>l\<close> and
  \<open>r\<close> are whitespace, decoding \<open>l @ s' @ r\<close> has the outcome of decoding \<open>s\<close>.
  Any other whitespace character (space, \<open>\t\<close>, \<open>\v\<close>, \<open>\f\<close>) inside the text, that is,
  with a character that is not whitespace somewhere before it and somewhere after it, is
  not stripped and makes decoding fail with the \<open>std::runtime_error\<close> of the codec.
\<close>

theorem line_breaks_insignificant:
  "(filter (\<lambda>c. c \<noteq> CHR 0x0A \<and> c \<noteq> CHR 0x0D) s' =
      filter (\<lambda>c. c \<noteq> CHR 0x0A \<and> c \<noteq> CHR 0x0D) s \<and>
    (\<forall>c\<in>set l. is_space c) \<and> (\<forall>c\<in>set r. is_space c) \<longrightarrow>
      base64_decode (l @ s' @ r) = base64_decode s) \<and>
   (is_space c \<and> c \<noteq> CHR 0x0A \<and> c \<noteq> CHR 0x0D \<and>
    (\<exists>x\<in>set a. \<not> is_space x) \<and> (\<exists>y\<in>set b. \<not> is_space y) \<longrightarrow>
      base64_decode (a @ [c] @ b) =
        Some (Throw (runtime_error ''attempt to decode a value not in base64 char set'')))"
proof (intro conjI impI)
  assume "filter (\<lambda>c. c \<noteq> CHR 0x0A \<and> c \<noteq> CHR 0x0D) s' =
      filter (\<lambda>c. c \<noteq> CHR 0x0A \<and> c \<noteq> CHR 0x0D) s \<and>
    (\<forall>c\<in>set l. is_space c) \<and> (\<forall>c\<in>set r. is_space c)"
  then show "base64_decode (l @ s' @ r) = base64_decode s"
    by (intro base64_decode_clean clean_of_insensitive) simp_all
next
  assume "is_space c \<and> c \<noteq> CHR 0x0A \<and> c \<noteq> CHR 0x0D \<and>
    (\<exists>x\<in>set a. \<not> is_space x) \<and> (\<exists>y\<in>set b. \<not> is_space y)"
  then show "base64_decode (a @ [c] @ b) =
      Some (Throw (runtime_error ''attempt to decode a value not in base64 char set''))"
    by (intro embedded_space_throws) simp_all
qed

theorem line_breaks_insignificant_witness:
  "base64_decode ([CHR 0x20, CHR 0x09] @ [CHR ''Q'', CHR 0x0A, CHR ''U'', CHR ''J'', CHR 0x0D,
      CHR 0x0A, CHR ''D''] @ [CHR 0x0A, CHR 0x20]) = Some (Return [65, 66, 67]) \<and>
   base64_decode (''QU'' @ [CHR 0x09] @ ''JD'') =
     Some (Throw (runtime_error ''attempt to decode a value not in base64 char set'')) \<and>
   base64_decode ([CHR 0x20, CHR ''Q''] @ [CHR 0x0C] @ [CHR 0x0A, CHR ''Q'', CHR 0x0B]) =
     Some (Throw (runtime_error ''attempt to decode a value not in base64 char set''))"
  using line_breaks_insignificant [where
      s' = "[CHR ''Q'', CHR 0x0A, CHR ''U'', CHR ''J'', CHR 0x0D, CHR 0x0A, CHR ''D'']"
      and s = "''QUJD''" and l = "[CHR 0x20, CHR 0x09]" and r = "[CHR 0x0A, CHR 0x20]"
      and c = "CHR 0x09" and a = "''QU''" and b = "''JD''"]
    line_breaks_insignificant [where s' = "[]" and s = "[]" and l = "[]" and r = "[]"
      and c = "CHR 0x0C" and a = "[CHR 0x20, CHR ''Q'']" and b = "[CHR 0x0A, CHR ''Q'', CHR 0x0B]"]
  by (simp add: is_space_def base64_decode_QUJD)

text \<open>
  C5. The stages of \<open>resize_jpeg\<close> run in a fixed order and the first stage that does not
  return is the outcome, whatever the later stages would do:
  \<^item> dimensions outside the bounds give \<open>InvalidDimension\<close> for every input and every
    image library;
  \<^item> with dimensions inside the bounds, an outcome of \<open>base64_decode\<close> other than a
    return (an exception, the erase outside the vector, or no outcome at all, which
    \<open>base64_decode_never_diverges\<close> excludes) is the outcome for every image library,
    and so is \<open>EmptyInput\<close> when the decoded bytes are empty;
  \<^item> then a failure of \<open>cv::imdecode\<close>, or an empty image, is the outcome whatever
    \<open>cv::resize\<close> and \<open>cv::imencode\<close> are;
  \<^item> then a failure of \<open>cv::resize\<close> is the outcome whatever \<open>cv::imencode\<close> is;
  \<^item> then a failure of \<open>cv::imencode\<close>, or a false flag or an empty buffer from it, is
    the outcome;
  \<^item> otherwise the outcome is that of \<open>base64_encode\<close> on the buffer.
  The cases are exhaustive: every invocation falls under one of them.
\<close>

theorem pipeline_stage_order:
  fixes cv :: "'m opencv"
  shows
    "(sint w \<le> 0 \<or> sint h \<le> 0 \<or> 65500 < sint w \<or> 65500 < sint h \<longrightarrow>
        (\<exists>e. InvalidDimension e \<and>
           (\<forall>(cv' :: 'm opencv) input'. resize_jpeg cv' input' w h = Some (Throw e)))) \<and>
     (0 < sint w \<and> 0 < sint h \<and> sint w \<le> 65500 \<and> sint h \<le> 65500 \<longrightarrow>
        (base64_decode input = None \<longrightarrow>
           (\<forall>cv' :: 'm opencv. resize_jpeg cv' input w h = None)) \<and>
        (base64_decode input = Some Undefined \<longrightarrow>
           (\<forall>cv' :: 'm opencv. resize_jpeg cv' input w h = Some Undefined)) \<and>
        (\<forall>e. base64_decode input = Some (Throw e) \<longrightarrow>
           (\<forall>cv' :: 'm opencv. resize_jpeg cv' input w h = Some (Throw e))) \<and>
        (base64_decode input = Some (Return []) \<longrightarrow>
           (\<forall>cv' :: 'm opencv. resize_jpeg cv' input w h = Some (Throw EmptyInput))) \<and>
        (\<forall>jpeg_data. base64_decode input = Some (Return jpeg_data) \<and> jpeg_data \<noteq> [] \<longrightarrow>
           (imdecode cv jpeg_data IMREAD_COLOR = Undefined \<longrightarrow>
              (\<forall>r enc. resize_jpeg (cv\<lparr>resize := r, imencode := enc\<rparr>) input w h =
                 Some Undefined)) \<and>
           (\<forall>e. imdecode cv jpeg_data IMREAD_COLOR = Throw e \<longrightarrow>
              (\<forall>r enc. resize_jpeg (cv\<lparr>resize := r, imencode := enc\<rparr>) input w h =
                 Some (Throw e))) \<and>
           (\<forall>input_image. imdecode cv jpeg_data IMREAD_COLOR = Return input_image \<longrightarrow>
              (mat_empty cv input_image \<longrightarrow>
                 (\<forall>r enc. resize_jpeg (cv\<lparr>resize := r, imencode := enc\<rparr>) input w h =
                    Some (Throw (runtime_error
                      ''Failed to decode JPEG image - invalid format or corrupted data'')))) \<and>
              (\<not> mat_empty cv input_image \<longrightarrow>
                 (resize cv input_image (w, h) INTER_AREA = Undefined \<longrightarrow>
                    (\<forall>enc. resize_jpeg (cv\<lparr>imencode := enc\<rparr>) input w h = Some Undefined)) \<and>
                 (\<forall>e. resize cv input_image (w, h) INTER_AREA = Throw e \<longrightarrow>
                    (\<forall>enc. resize_jpeg (cv\<lparr>imencode := enc\<rparr>) input w h = Some (Throw e))) \<and>
                 (\<forall>resized_image.
                    resize cv input_image (w, h) INTER_AREA = Return resized_image \<longrightarrow>
                    (imencode cv ''.jpg'' resized_image
                       [(IMWRITE_JPEG_QUALITY, 85), (IMWRITE_JPEG_OPTIMIZE, 1)] = Undefined \<longrightarrow>
                       resize_jpeg cv input w h = Some Undefined) \<and>
                    (\<forall>e. imencode cv ''.jpg'' resized_image
                            [(IMWRITE_JPEG_QUALITY, 85), (IMWRITE_JPEG_OPTIMIZE, 1)] = Throw e \<longrightarrow>
                       resize_jpeg cv input w h = Some (Throw e)) \<and>
                    (\<forall>encode_success output_buffer.
                       imencode cv ''.jpg'' resized_image
                         [(IMWRITE_JPEG_QUALITY, 85), (IMWRITE_JPEG_OPTIMIZE, 1)] =
                         Return (encode_success, output_buffer) \<longrightarrow>
                       (if \<not> encode_success \<or> output_buffer = [] then
                          resize_jpeg cv input w h =
                            Some (Throw (runtime_error ''Failed to encode resized image to JPEG''))
                        else resize_jpeg cv input w h = base64_encode output_buffer)))))))"
proof (intro conjI impI)
  assume "sint w \<le> 0 \<or> sint h \<le> 0 \<or> 65500 < sint w \<or> 65500 < sint h"
  from resize_jpeg_invalid [OF this]
  show "\<exists>e. InvalidDimension e \<and>
      (\<forall>(cv' :: 'm opencv) input'. resize_jpeg cv' input' w h = Some (Throw e))"
    by blast
qed (simp_all add: resize_jpeg_def EmptyInput_def)

theorem pipeline_stage_order_witness:
  "(\<exists>e. InvalidDimension e \<and> resize_jpeg opencv_echo ''QUJD'' 0 100 = Some (Throw e)) \<and>
   resize_jpeg opencv_echo ''=='' 100 100 = Some Undefined \<and>
   resize_jpeg opencv_echo ''QU JD'' 100 100 =
     Some (Throw (runtime_error ''attempt to decode a value not in base64 char set'')) \<and>
   resize_jpeg opencv_echo [] 100 100 = Some (Throw EmptyInput) \<and>
   resize_jpeg (opencv_echo\<lparr>mat_empty := \<lambda>m. True\<rparr>) ''QUJD'' 100 100 =
     Some (Throw (runtime_error
       ''Failed to decode JPEG image - invalid format or corrupted data'')) \<and>
   resize_jpeg (opencv_echo\<lparr>imencode := \<lambda>ext m params. Return (False, m)\<rparr>) ''QUJD'' 100 100 =
     Some (Throw (runtime_error ''Failed to encode resized image to JPEG'')) \<and>
   resize_jpeg opencv_echo ''QUJD'' 100 100 = Some (Return ''QUJD'')"
proof -
  have empty: "base64_decode [] = Some (Return [])"
    by (simp add: base64_decode_clean_empty clean_of_all_space)
  note stages = pipeline_stage_order [where w = 100 and h = 100]
  show ?thesis
    using pipeline_stage_order [where w = 0 and h = 100 and cv = opencv_echo]
      stages [where cv = opencv_echo and input = "''==''"]
      stages [where cv = opencv_echo and input = "''QU JD''"]
      stages [where cv = opencv_echo and input = "[]"]
      stages [where cv = "opencv_echo\<lparr>mat_empty := \<lambda>m. True\<rparr>" and input = "''QUJD''"]
      stages [where cv = "opencv_echo\<lparr>imencode := \<lambda>ext m params. Return (False, m)\<rparr>"
        and input = "''QUJD''"]
      stages [where cv = opencv_echo and input = "''QUJD''"]
    by (auto simp: opencv_echo_def base64_decode_space_inside base64_decode_QUJD empty
        base64_encode_ABC base64_decode_two_equals)
qed

section \<open>What a successful run returns\<close>

text \<open>
  When \<open>resize_jpeg\<close> returns, every stage has returned: the image was resized to
  \<open>(target_width, target_height)\<close> with \<open>INTER_AREA\<close>, whatever the size of the source, and
  the text returned decodes to the very buffer that \<open>cv::imencode\<close> filled. What the
  image in that buffer looks like is OpenCV's matter.
\<close>

lemma resize_jpeg_returns:
  assumes "resize_jpeg cv input w h = Some (Return output_jpeg)"
  shows "\<exists>jpeg_data input_image resized_image output_buffer.
           base64_decode input = Some (Return jpeg_data) \<and>
           imdecode cv jpeg_data IMREAD_COLOR = Return input_image \<and>
           resize cv input_image (w, h) INTER_AREA = Return resized_image \<and>
           imencode cv ''.jpg'' resized_image
             [(IMWRITE_JPEG_QUALITY, 85), (IMWRITE_JPEG_OPTIMIZE, 1)] =
             Return (True, output_buffer) \<and>
           base64_decode output_jpeg = Some (Return output_buffer)"
proof -
  from assms obtain jpeg_data where 1: "base64_decode input = Some (Return jpeg_data)"
    by (auto simp: resize_jpeg_def split: if_splits option.splits result.splits)
  with assms obtain input_image where
    2: "imdecode cv jpeg_data IMREAD_COLOR = Return input_image"
    by (auto simp: resize_jpeg_def split: if_splits result.splits)
  with assms 1 obtain resized_image where
    3: "resize cv input_image (w, h) INTER_AREA = Return resized_image"
    by (auto simp: resize_jpeg_def split: if_splits result.splits)
  with assms 1 2 obtain output_buffer where
    4: "imencode cv ''.jpg'' resized_image
          [(IMWRITE_JPEG_QUALITY, 85), (IMWRITE_JPEG_OPTIMIZE, 1)] = Return (True, output_buffer)"
    and 5: "base64_encode output_buffer = Some (Return output_jpeg)"
    by (auto simp: resize_jpeg_def split: if_splits result.splits)
  from 5 have "base64_decode output_jpeg = Some (Return output_buffer)"
    using base64_decode_encoded [of output_buffer] by (simp add: base64_encode_eq)
  with 1 2 3 4 show ?thesis
    by blast
qed

end
